theory Spec2Isabelle
  imports Complex_Main "HOL-Library.Word"
begin

section \<open>The example task recipe (en-horizontal-learning-task.ipynb)\<close>

text \<open>
  The notebook defines \<open>ExampleTask\<close>, a recipe with \<open>preprocess\<close>, \<open>train\<close>,
  \<open>validate\<close>, \<open>get_params\<close>, \<open>algorithm\<close> and \<open>dataloader_config\<close>.
  Python exceptions are values of \<open>py_error\<close>; a function that may raise returns
  \<open>py_error + 'a\<close>. Floating-point numbers are idealised as rationals: every
  statement below about a quotient or a rescaled value is about the exact value, not
  about its rounding to the array's or Python's floating-point format.
\<close>

datatype py_error =
  ZeroDivisionError | IndexError | TypeError | ValueError | OverflowError | RuntimeError

subsection \<open>\<open>ExampleTask.preprocess\<close>\<close>


datatype strides_kind = StridesOk | NegativeStride | UnalignedStride












subsection \<open>\<open>ExampleTask.validate\<close>\<close>

text \<open>
  \<open>y_pred\<close>, the value of \<open>self.model(x)\<close>, is a matrix of logits: one row per sample,
  one column per class.
\<close>

record logits =
  n_rows :: nat
  n_classes :: nat
  entry :: "nat \<Rightarrow> nat \<Rightarrow> rat"

definition row :: "logits \<Rightarrow> nat \<Rightarrow> rat list" where
  "row t i = map (entry t i) [0..<n_classes t]"

text \<open>
  \<open>torch.argmax(y_pred, dim=1)\<close>: for each row the index of its first maximal entry.
  Without a column there is nothing to reduce and the call raises \<open>IndexError\<close>, also
  when there is no row. \<open>argmax\<close> scans a row from the left, keeping the best value and
  its index; it is only called on rows with an entry.
\<close>

fun argmax_from :: "rat list \<Rightarrow> nat \<Rightarrow> rat \<Rightarrow> nat \<Rightarrow> nat" where
  "argmax_from [] i best bi = bi"
| "argmax_from (v # vs) i best bi =
     (if best < v then argmax_from vs (Suc i) v i else argmax_from vs (Suc i) best bi)"

fun argmax :: "rat list \<Rightarrow> nat" where
  "argmax [] = 0"
| "argmax (v # vs) = argmax_from vs 1 v 0"

definition argmax_dim1 :: "logits \<Rightarrow> py_error + int list" where
  "argmax_dim1 t =
     (if n_classes t = 0 then Inl IndexError
      else Inr (map (\<lambda>i. int (argmax (row t i))) [0..<n_rows t]))"

text \<open>
  The loop \<open>for batch in dataloader\<close> of \<open>validate\<close>. A batch is the pair \<open>(x, y)\<close> of
  an input tensor and the list of its labels. The network \<open>self.model\<close> and the loss
  \<open>self.loss_func\<close> belong to torch and are parameters; each returns or raises:
  \<open>model x\<close> is the matrix of logits, \<open>loss_func y_pred y\<close> the number \<open>loss.item()\<close>.
  The loop state is \<open>(total_loss, count, ys, y_s)\<close>.
\<close>

type_synonym 'x batch = "'x \<times> int list"
type_synonym vstate = "rat \<times> nat \<times> int list \<times> int list"

fun validate_loop ::
  "('x \<Rightarrow> py_error + logits) \<Rightarrow> (logits \<Rightarrow> int list \<Rightarrow> py_error + rat) \<Rightarrow> 'x batch list \<Rightarrow> vstate
     \<Rightarrow> py_error + vstate" where
  "validate_loop model loss_func [] st = Inr st"
| "validate_loop model loss_func ((x, y) # bs) (total_loss, count, ys, y_s) =
     (case model x of
        Inl e \<Rightarrow> Inl e
      | Inr y_pred \<Rightarrow>
          (case loss_func y_pred y of
             Inl e \<Rightarrow> Inl e
           | Inr loss \<Rightarrow>
               (case argmax_dim1 y_pred of
                  Inl e \<Rightarrow> Inl e
                | Inr y_ \<Rightarrow>
                    validate_loop model loss_func bs (total_loss + loss, count + 1, ys @ y, y_s @ y_))))"

text \<open>
  After the loop: \<open>avg_loss = total_loss / count\<close>, then
  \<open>tp = len([1 for i in range(len(ys)) if ys[i] == y_s[i]])\<close> and
  \<open>precision = tp / len(ys)\<close>. Both divisions raise \<open>ZeroDivisionError\<close> on a zero
  divisor, and \<open>y_s[i]\<close> raises \<open>IndexError\<close> when there are fewer predictions than
  labels. The result is the dictionary with the keys \<open>loss\<close> and \<open>precision\<close>.
\<close>

definition validate ::
  "('x \<Rightarrow> py_error + logits) \<Rightarrow> (logits \<Rightarrow> int list \<Rightarrow> py_error + rat) \<Rightarrow> 'x batch list
     \<Rightarrow> py_error + (string \<rightharpoonup> rat)" where
  "validate model loss_func dataloader =
     (case validate_loop model loss_func dataloader (0, 0, [], []) of
        Inl e \<Rightarrow> Inl e
      | Inr (total_loss, count, ys, y_s) \<Rightarrow>
          if count = 0 then Inl ZeroDivisionError
          else let avg_loss = total_loss / of_nat count in
          if length y_s < length ys then Inl IndexError
          else let tp = length (filter (\<lambda>i. ys ! i = y_s ! i) [0..<length ys]) in
          if length ys = 0 then Inl ZeroDivisionError
          else let precision = of_nat tp / of_nat (length ys) in
          Inr [''loss'' \<mapsto> avg_loss, ''precision'' \<mapsto> precision])"

text \<open>
  What the result is compared with. The labels of all samples, in dataloader order, and
  the row of logits the network gives each sample. A class \<open>k\<close> is the argmax prediction
  of a row when it is the first index of a maximal entry: no entry is larger and every
  earlier entry is smaller. A sample is correct when its label is that class.
\<close>

definition all_labels :: "'x batch list \<Rightarrow> int list" where
  "all_labels dataloader = concat (map snd dataloader)"

definition sample_rows :: "('x \<Rightarrow> py_error + logits) \<Rightarrow> 'x batch list \<Rightarrow> rat list list" where
  "sample_rows model dataloader =
     concat (map (\<lambda>(x, y). case model x of Inl e \<Rightarrow> [] | Inr t \<Rightarrow> map (row t) [0..<n_rows t]) dataloader)"

definition first_max :: "rat list \<Rightarrow> nat \<Rightarrow> bool" where
  "first_max r k =
     (k < length r \<and> list_all (\<lambda>j. r ! j \<le> r ! k) [0..<length r] \<and> list_all (\<lambda>j. r ! j < r ! k) [0..<k])"

definition correct_samples :: "('x \<Rightarrow> py_error + logits) \<Rightarrow> 'x batch list \<Rightarrow> nat" where
  "correct_samples model dataloader =
     length (filter (\<lambda>(y, r). 0 \<le> y \<and> first_max r (nat y))
               (zip (all_labels dataloader) (sample_rows model dataloader)))"

definition batch_loss ::
  "('x \<Rightarrow> py_error + logits) \<Rightarrow> (logits \<Rightarrow> int list \<Rightarrow> py_error + rat) \<Rightarrow> 'x batch \<Rightarrow> rat" where
  "batch_loss model loss_func b =
     (case model (fst b) of
        Inl e \<Rightarrow> 0
      | Inr t \<Rightarrow> (case loss_func t (snd b) of Inl e \<Rightarrow> 0 | Inr l \<Rightarrow> l))"

text \<open>
  A batch goes through when the network returns logits with one row per label and at
  least one class, and the loss function returns a number for them.
\<close>

definition batch_ok ::
  "('x \<Rightarrow> py_error + logits) \<Rightarrow> (logits \<Rightarrow> int list \<Rightarrow> py_error + rat) \<Rightarrow> 'x batch \<Rightarrow> bool" where
  "batch_ok model loss_func b =
     (case model (fst b) of
        Inl e \<Rightarrow> False
      | Inr t \<Rightarrow> n_rows t = length (snd b) \<and> 0 < n_classes t \<and>
                (case loss_func t (snd b) of Inl e \<Rightarrow> False | Inr l \<Rightarrow> True))"

section \<open>Properties of \<open>preprocess\<close>\<close>






section \<open>Properties of \<open>validate\<close>\<close>

lemma first_max_iff:
  "first_max r k \<longleftrightarrow> k < length r \<and> (\<forall>j<length r. r ! j \<le> r ! k) \<and> (\<forall>j<k. r ! j < r ! k)"
  by (auto simp: first_max_def list_all_iff)

lemma argmax_from_first_max:
  assumes "length pre = i" and "bi < i" and "pre ! bi = best"
    and "\<forall>j<i. pre ! j \<le> best" and "\<forall>j<bi. pre ! j < best"
  shows "first_max (pre @ vs) (argmax_from vs i best bi)"
  using assms
proof (induction vs arbitrary: pre i best bi)
  case Nil
  then show ?case by (simp add: first_max_iff)
next
  case (Cons v vs)
  have split: "pre @ v # vs = (pre @ [v]) @ vs" by simp
  show ?case
  proof (cases "best < v")
    case True
    have "first_max ((pre @ [v]) @ vs) (argmax_from vs (Suc i) v i)"
    proof (rule Cons.IH)
      show "length (pre @ [v]) = Suc i" using Cons.prems(1) by simp
      show "i < Suc i" by simp
      show "(pre @ [v]) ! i = v" using Cons.prems(1) by (simp add: nth_append)
      show "\<forall>j<Suc i. (pre @ [v]) ! j \<le> v"
      proof (intro allI impI)
        fix j assume "j < Suc i"
        show "(pre @ [v]) ! j \<le> v"
        proof (cases "j < i")
          case True
          with Cons.prems(1,4) have "pre ! j \<le> best" by simp
          with \<open>best < v\<close> True Cons.prems(1) show ?thesis by (simp add: nth_append)
        next
          case False
          with \<open>j < Suc i\<close> have "j = i" by simp
          with Cons.prems(1) show ?thesis by (simp add: nth_append)
        qed
      qed
      show "\<forall>j<i. (pre @ [v]) ! j < v"
      proof (intro allI impI)
        fix j assume "j < i"
        with Cons.prems(1,4) have "pre ! j \<le> best" by simp
        with \<open>best < v\<close> \<open>j < i\<close> Cons.prems(1) show "(pre @ [v]) ! j < v" by (simp add: nth_append)
      qed
    qed
    with True split show ?thesis by simp
  next
    case False
    have "first_max ((pre @ [v]) @ vs) (argmax_from vs (Suc i) best bi)"
    proof (rule Cons.IH)
      show "length (pre @ [v]) = Suc i" using Cons.prems(1) by simp
      show "bi < Suc i" using Cons.prems(2) by simp
      show "(pre @ [v]) ! bi = best" using Cons.prems(1,2,3) by (simp add: nth_append)
      show "\<forall>j<Suc i. (pre @ [v]) ! j \<le> best"
      proof (intro allI impI)
        fix j assume "j < Suc i"
        show "(pre @ [v]) ! j \<le> best"
        proof (cases "j < i")
          case True
          with Cons.prems(1,4) show ?thesis by (simp add: nth_append)
        next
          case F: False
          with \<open>j < Suc i\<close> have "j = i" by simp
          with Cons.prems(1) False show ?thesis by (simp add: nth_append)
        qed
      qed
      show "\<forall>j<bi. (pre @ [v]) ! j < best"
        using Cons.prems(1,2,5) by (simp add: nth_append)
    qed
    with False split show ?thesis by simp
  qed
qed

lemma argmax_first_max:
  assumes "r \<noteq> []"
  shows "first_max r (argmax r)"
proof -
  from assms obtain v vs where r: "r = v # vs" by (cases r) auto
  have "first_max ([v] @ vs) (argmax_from vs 1 v 0)"
    by (rule argmax_from_first_max) simp_all
  with r show ?thesis by simp
qed

lemma first_max_unique:
  assumes "first_max r k" and "first_max r k'"
  shows "k = k'"
proof (rule ccontr)
  assume ne: "k \<noteq> k'"
  from assms have k: "k < length r" "\<forall>j<length r. r ! j \<le> r ! k" "\<forall>j<k. r ! j < r ! k"
    and k': "k' < length r" "\<forall>j<length r. r ! j \<le> r ! k'" "\<forall>j<k'. r ! j < r ! k'"
    by (simp_all add: first_max_iff)
  from ne consider "k < k'" | "k' < k" by linarith
  then show False
  proof cases
    case 1
    with k'(3) have "r ! k < r ! k'" by simp
    moreover from k(2) k'(1) have "r ! k' \<le> r ! k" by simp
    ultimately show False by simp
  next
    case 2
    with k(3) have "r ! k' < r ! k" by simp
    moreover from k'(2) k(1) have "r ! k \<le> r ! k'" by simp
    ultimately show False by simp
  qed
qed

lemma label_is_argmax:
  assumes "r \<noteq> []"
  shows "y = int (argmax r) \<longleftrightarrow> 0 \<le> y \<and> first_max r (nat y)"
proof
  assume "y = int (argmax r)"
  with argmax_first_max [OF assms] show "0 \<le> y \<and> first_max r (nat y)" by simp
next
  assume a: "0 \<le> y \<and> first_max r (nat y)"
  then have pos: "0 \<le> y" and fm: "first_max r (nat y)" by simp_all
  from fm argmax_first_max [OF assms] have "nat y = argmax r" by (rule first_max_unique)
  then have "int (nat y) = int (argmax r)" by simp
  with pos show "y = int (argmax r)" by simp
qed

lemma all_labels_Cons: "all_labels ((x, y) # bs) = y @ all_labels bs"
  by (simp add: all_labels_def)

lemma sample_rows_Cons:
  "model x = Inr t \<Longrightarrow> sample_rows model ((x, y) # bs) = map (row t) [0..<n_rows t] @ sample_rows model bs"
  by (simp add: sample_rows_def)

lemma batch_okD:
  assumes "batch_ok model loss_func (x, y)"
  shows "\<exists>t l. model x = Inr t \<and> loss_func t y = Inr l \<and> n_rows t = length y \<and> 0 < n_classes t"
  using assms by (auto simp: batch_ok_def split: sum.splits)

lemma validate_loop_ok:
  "list_all (batch_ok model loss_func) dl \<Longrightarrow>
   validate_loop model loss_func dl (t, c, ys, ps) =
     Inr (t + sum_list (map (batch_loss model loss_func) dl), c + length dl,
          ys @ all_labels dl, ps @ map (\<lambda>r. int (argmax r)) (sample_rows model dl))"
proof (induction dl arbitrary: t c ys ps)
  case Nil
  then show ?case by (simp add: all_labels_def sample_rows_def)
next
  case (Cons b bs)
  obtain x y where b: "b = (x, y)" by (cases b)
  from Cons.prems b have "batch_ok model loss_func (x, y)" by simp
  from batch_okD [OF this] obtain lg l where
    m: "model x = Inr lg" and l: "loss_func lg y = Inr l" and c: "0 < n_classes lg"
    by blast
  have am: "argmax_dim1 lg = Inr (map (\<lambda>r. int (argmax r)) (map (row lg) [0..<n_rows lg]))"
    using c by (simp add: argmax_dim1_def comp_def)
  have bl: "batch_loss model loss_func (x, y) = l" by (simp add: batch_loss_def m l)
  from Cons.prems have "list_all (batch_ok model loss_func) bs" by simp
  note IH = Cons.IH [OF this]
  show ?case
    by (simp add: b m l am IH bl all_labels_Cons sample_rows_Cons [where model = model, OF m] add.assoc)
qed

lemma sample_rows_ok:
  "list_all (batch_ok model loss_func) dl \<Longrightarrow>
   length (sample_rows model dl) = length (all_labels dl) \<and> (\<forall>r\<in>set (sample_rows model dl). r \<noteq> [])"
proof (induction dl)
  case Nil
  then show ?case by (simp add: all_labels_def sample_rows_def)
next
  case (Cons b bs)
  obtain x y where b: "b = (x, y)" by (cases b)
  from Cons.prems b have "batch_ok model loss_func (x, y)" by simp
  from batch_okD [OF this] obtain lg where
    m: "model x = Inr lg" and n: "n_rows lg = length y" and c: "0 < n_classes lg"
    by blast
  from c have "row lg i \<noteq> []" for i by (simp add: row_def)
  then have rows: "\<forall>r\<in>set (map (row lg) [0..<n_rows lg]). r \<noteq> []" by auto
  from Cons.prems have "list_all (batch_ok model loss_func) bs" by simp
  from Cons.IH [OF this] have IH1: "length (sample_rows model bs) = length (all_labels bs)"
    and IH2: "\<forall>r\<in>set (sample_rows model bs). r \<noteq> []" by simp_all
  have sr: "sample_rows model ((x, y) # bs) = map (row lg) [0..<n_rows lg] @ sample_rows model bs"
    by (rule sample_rows_Cons [where model = model, OF m])
  have "length (sample_rows model ((x, y) # bs)) = length (all_labels ((x, y) # bs))"
    by (simp add: sr all_labels_Cons n IH1)
  moreover have "\<forall>r\<in>set (sample_rows model ((x, y) # bs)). r \<noteq> []"
    unfolding sr using rows IH2 by (simp add: ball_Un)
  ultimately show ?case unfolding b by simp
qed

lemma count_correct:
  assumes len: "length rs = length ys" and ne: "\<forall>r\<in>set rs. r \<noteq> []"
  shows "length (filter (\<lambda>i. ys ! i = map (\<lambda>r. int (argmax r)) rs ! i) [0..<length ys])
       = length (filter (\<lambda>(y, r). 0 \<le> y \<and> first_max r (nat y)) (zip ys rs))"
proof -
  let ?S = "{i. i < length ys \<and> 0 \<le> ys ! i \<and> first_max (rs ! i) (nat (ys ! i))}"
  have eq: "ys ! i = map (\<lambda>r. int (argmax r)) rs ! i \<longleftrightarrow> 0 \<le> ys ! i \<and> first_max (rs ! i) (nat (ys ! i))"
    if "i < length ys" for i
  proof -
    from that len have "rs ! i \<in> set rs" by simp
    with ne have "rs ! i \<noteq> []" by blast
    from label_is_argmax [OF this, of "ys ! i"] that len show ?thesis by simp
  qed
  have "length (filter (\<lambda>i. ys ! i = map (\<lambda>r. int (argmax r)) rs ! i) [0..<length ys])
      = card {i. i < length ys \<and> ys ! i = map (\<lambda>r. int (argmax r)) rs ! i}"
    by (simp add: length_filter_conv_card cong: conj_cong)
  also have "{i. i < length ys \<and> ys ! i = map (\<lambda>r. int (argmax r)) rs ! i} = ?S"
    using eq by blast
  also have "card ?S = length (filter (\<lambda>(y, r). 0 \<le> y \<and> first_max r (nat y)) (zip ys rs))"
    using len by (simp add: length_filter_conv_card cong: conj_cong)
  finally show ?thesis .
qed

lemma validate_loop_counts:
  "validate_loop model loss_func dl (t, c, ys, ps) = Inr (t', c', ys', ps') \<Longrightarrow>
   c' = c + length dl \<and> ys' = ys @ all_labels dl"
proof (induction dl arbitrary: t c ys ps)
  case Nil
  then show ?case by (simp add: all_labels_def)
next
  case (Cons b bs)
  obtain x y where b: "b = (x, y)" by (cases b)
  from Cons.prems obtain l js where
    step: "validate_loop model loss_func bs (t + l, c + 1, ys @ y, ps @ js) = Inr (t', c', ys', ps')"
    by (auto simp: b split: sum.splits)
  from Cons.IH [OF step] show ?case by (simp add: b all_labels_Cons)
qed

lemma validate_only_with_samples:
  assumes "validate model loss_func dl = Inr r"
  shows "dl \<noteq> [] \<and> all_labels dl \<noteq> []"
proof -
  from assms obtain t c ys ps where
    loop: "validate_loop model loss_func dl (0, 0, [], []) = Inr (t, c, ys, ps)"
    and c: "c \<noteq> 0" and ys: "length ys \<noteq> 0"
    by (auto simp: validate_def Let_def split: sum.splits if_splits)
  from validate_loop_counts [OF loop] have "c = length dl" "ys = all_labels dl" by simp_all
  with c ys show ?thesis by auto
qed

lemma validate_result:
  assumes "validate model loss_func dl = Inr r"
  shows "dom r = {''loss'', ''precision''} \<and> (\<exists>p. r ''precision'' = Some p \<and> 0 \<le> p \<and> p \<le> 1)"
proof (cases "validate_loop model loss_func dl (0, 0, [], [])")
  case (Inl e)
  with assms show ?thesis by (simp add: validate_def)
next
  case (Inr st)
  obtain t c ys ps where st: "st = (t, c, ys, ps)" by (cases st)
  let ?tp = "length (filter (\<lambda>i. ys ! i = ps ! i) [0..<length ys])"
  from assms Inr st have ys: "length ys \<noteq> 0"
    by (auto simp: validate_def Let_def split: if_splits)
  from assms Inr st have r: "r = [''loss'' \<mapsto> t / of_nat c, ''precision'' \<mapsto> of_nat ?tp / of_nat (length ys)]"
    by (auto simp: validate_def Let_def split: if_splits)
  have "?tp \<le> length [0..<length ys]" by (rule length_filter_le)
  then have le: "?tp \<le> length ys" by simp
  have "(of_nat ?tp :: rat) / of_nat (length ys) \<le> 1"
    using ys le by (simp add: divide_le_eq)
  moreover have "0 \<le> (of_nat ?tp :: rat) / of_nat (length ys)" by simp
  moreover have "dom r = {''loss'', ''precision''}" unfolding r by auto
  moreover have "r ''precision'' = Some (of_nat ?tp / of_nat (length ys))" unfolding r by simp
  ultimately show ?thesis by blast
qed

lemma validate_no_samples:
  assumes ok: "list_all (batch_ok model loss_func) dl" and none: "all_labels dl = []"
  shows "validate model loss_func dl = Inl ZeroDivisionError"
proof -
  from sample_rows_ok [OF ok] none have "sample_rows model dl = []" by simp
  then show ?thesis
    by (simp add: validate_def validate_loop_ok [OF ok] none Let_def)
qed

lemma validate_with_samples:
  assumes ok: "list_all (batch_ok model loss_func) dl" and some: "all_labels dl \<noteq> []"
  shows "validate model loss_func dl =
     Inr [''loss'' \<mapsto> sum_list (map (batch_loss model loss_func) dl) / of_nat (length dl),
          ''precision'' \<mapsto> of_nat (correct_samples model dl) / of_nat (length (all_labels dl))]"
proof -
  from sample_rows_ok [OF ok] have len: "length (sample_rows model dl) = length (all_labels dl)"
    and ne: "\<forall>r\<in>set (sample_rows model dl). r \<noteq> []" by simp_all
  have dl: "dl \<noteq> []" using some by (auto simp: all_labels_def)
  have tp: "length (filter (\<lambda>i. all_labels dl ! i = map (\<lambda>r. int (argmax r)) (sample_rows model dl) ! i)
                    [0..<length (all_labels dl)])
      = correct_samples model dl"
    unfolding correct_samples_def by (rule count_correct [OF len ne])
  show ?thesis
    using dl some by (simp add: validate_def validate_loop_ok [OF ok] Let_def len tp)
qed

lemma correct_samples_le:
  "list_all (batch_ok model loss_func) dl \<Longrightarrow> correct_samples model dl \<le> length (all_labels dl)"
proof -
  assume ok: "list_all (batch_ok model loss_func) dl"
  have "correct_samples model dl \<le> length (zip (all_labels dl) (sample_rows model dl))"
    unfolding correct_samples_def by (rule length_filter_le)
  then show ?thesis by simp
qed

text \<open>
  Claim C10, as amended. \<open>validate\<close> divides by the number of batches and by the number
  of samples without a guard. Whenever it returns, the dataloader had at least one batch
  and at least one sample, and the result is a dictionary with exactly the keys \<open>loss\<close>
  and \<open>precision\<close> whose precision lies in \<open>[0, 1]\<close>. When on every batch the network
  returns logits with one row per label and at least one class and the loss function
  returns a number: without a sample the call raises \<open>ZeroDivisionError\<close>; with at least
  one sample it returns that dictionary, where \<open>loss\<close> is the mean of the batch losses
  and \<open>precision\<close> is the number of samples whose label is the argmax prediction of
  their row (the first index of a maximal logit) divided by the number of samples.
\<close>

theorem validate_precision:
  "(\<forall>r. validate model loss_func dataloader = Inr r \<longrightarrow>
        dataloader \<noteq> [] \<and> all_labels dataloader \<noteq> [] \<and> dom r = {''loss'', ''precision''} \<and>
        (\<exists>p. r ''precision'' = Some p \<and> 0 \<le> p \<and> p \<le> 1)) \<and>
   (list_all (batch_ok model loss_func) dataloader \<longrightarrow>
      (all_labels dataloader = [] \<longrightarrow> validate model loss_func dataloader = Inl ZeroDivisionError) \<and>
      (all_labels dataloader \<noteq> [] \<longrightarrow>
         (\<exists>avg_loss precision.
            validate model loss_func dataloader = Inr [''loss'' \<mapsto> avg_loss, ''precision'' \<mapsto> precision] \<and>
            dom [''loss'' \<mapsto> avg_loss, ''precision'' \<mapsto> precision] = {''loss'', ''precision''} \<and>
            avg_loss = sum_list (map (batch_loss model loss_func) dataloader) / of_nat (length dataloader) \<and>
            precision = of_nat (correct_samples model dataloader) / of_nat (length (all_labels dataloader)) \<and>
            0 \<le> precision \<and> precision \<le> 1)))"
proof (intro conjI allI impI)
  fix r assume r: "validate model loss_func dataloader = Inr r"
  then show "dataloader \<noteq> []" and "all_labels dataloader \<noteq> []"
    using validate_only_with_samples by blast+
  from validate_result [OF r]
  show "dom r = {''loss'', ''precision''}" and "\<exists>p. r ''precision'' = Some p \<and> 0 \<le> p \<and> p \<le> 1"
    by blast+
next
  assume "list_all (batch_ok model loss_func) dataloader" and "all_labels dataloader = []"
  then show "validate model loss_func dataloader = Inl ZeroDivisionError"
    by (rule validate_no_samples)
next
  assume ok: "list_all (batch_ok model loss_func) dataloader" and some: "all_labels dataloader \<noteq> []"
  let ?n = "length (all_labels dataloader)"
  let ?p = "of_nat (correct_samples model dataloader) / of_nat ?n :: rat"
  have n: "0 < ?n" using some by simp
  have le: "correct_samples model dataloader \<le> ?n" by (rule correct_samples_le [OF ok])
  have "0 \<le> ?p" by simp
  moreover have "?p \<le> 1" using n le by (simp add: divide_le_eq)
  moreover have "dom [''loss'' \<mapsto> a, ''precision'' \<mapsto> ?p] = {''loss'', ''precision''}" for a :: rat
    by auto
  ultimately show "\<exists>avg_loss precision.
            validate model loss_func dataloader = Inr [''loss'' \<mapsto> avg_loss, ''precision'' \<mapsto> precision] \<and>
            dom [''loss'' \<mapsto> avg_loss, ''precision'' \<mapsto> precision] = {''loss'', ''precision''} \<and>
            avg_loss = sum_list (map (batch_loss model loss_func) dataloader) / of_nat (length dataloader) \<and>
            precision = of_nat (correct_samples model dataloader) / of_nat (length (all_labels dataloader)) \<and>
            0 \<le> precision \<and> precision \<le> 1"
    using validate_with_samples [OF ok some] by blast
qed

text \<open>
  The statement at a network with three classes: no batch at all raises; two batches of
  two samples whose rows have their first maximum at the classes 1, 0, 2 and 0, with the
  labels 1, 0, 2 and 2, give precision \<open>3 / 4\<close> in a dictionary with the two keys.
\<close>

theorem validate_precision_witness:
  "validate (\<lambda>x::nat. Inr \<lparr>n_rows = 2, n_classes = 3,
                entry = (\<lambda>i j. (if x = 0 then [[1, 5, 5], [7, 2, 3]] else [[0, 1, 9], [3, 3, 1]]) ! i ! j)\<rparr>)
            (\<lambda>t y. Inr (1 / 2)) [] = Inl ZeroDivisionError \<and>
   validate (\<lambda>x::nat. Inr \<lparr>n_rows = 2, n_classes = 3,
                entry = (\<lambda>i j. (if x = 0 then [[1, 5, 5], [7, 2, 3]] else [[0, 1, 9], [3, 3, 1]]) ! i ! j)\<rparr>)
            (\<lambda>t y. Inr (1 / 2)) [(0, [1, 0]), (1, [2, 2])]
     = Inr [''loss'' \<mapsto> 1 / 2, ''precision'' \<mapsto> 3 / 4] \<and>
   dom [''loss'' \<mapsto> 1 / 2 :: rat, ''precision'' \<mapsto> 3 / 4] = {''loss'', ''precision''}"
proof -
  let ?m = "\<lambda>x::nat. Inr \<lparr>n_rows = 2, n_classes = 3,
                entry = (\<lambda>i j. (if x = 0 then [[1, 5, 5], [7, 2, 3]] else [[0, 1, 9], [3, 3, 1 :: rat]]) ! i ! j)\<rparr>
             :: py_error + logits"
  let ?l = "\<lambda>(t :: logits) (y :: int list). Inr (1 / 2) :: py_error + rat"
  let ?dl = "[(0, [1, 0]), (1, [2, 2])] :: nat batch list"
  have ok0: "list_all (batch_ok ?m ?l) []" by simp
  have none: "all_labels ([] :: nat batch list) = []" by (simp add: all_labels_def)
  have ok: "list_all (batch_ok ?m ?l) ?dl" by (simp add: batch_ok_def)
  have some: "all_labels ?dl \<noteq> []" by (simp add: all_labels_def)
  have n: "length (all_labels ?dl) = 4" by (simp add: all_labels_def)
  have up: "[0..<2] = [0, Suc 0]" "[0..<3] = [0, Suc 0, 2]" by (simp_all add: upt_rec)
  have rows: "sample_rows ?m ?dl = [[1, 5, 5], [7, 2, 3], [0, 1, 9], [3, 3, 1]]"
    by (simp add: sample_rows_def row_def up)
  have tp: "correct_samples ?m ?dl = 3"
    unfolding correct_samples_def rows by (simp add: all_labels_def first_max_def up upt_rec)
  have ls: "sum_list (map (batch_loss ?m ?l) ?dl) = 1" by (simp add: batch_loss_def)
  have a: "validate ?m ?l [] = Inl ZeroDivisionError"
    using validate_precision [of ?m ?l "[]", THEN conjunct2, THEN mp, OF ok0, THEN conjunct1, THEN mp, OF none] .
  note b = validate_precision [of ?m ?l ?dl, THEN conjunct2, THEN mp, OF ok, THEN conjunct2, THEN mp, OF some]
  from b obtain avg_loss precision where
    v: "validate ?m ?l ?dl = Inr [''loss'' \<mapsto> avg_loss, ''precision'' \<mapsto> precision]"
    and l: "avg_loss = sum_list (map (batch_loss ?m ?l) ?dl) / of_nat (length ?dl)"
    and p: "precision = of_nat (correct_samples ?m ?dl) / of_nat (length (all_labels ?dl))"
    by (elim exE conjE)
  from l have l': "avg_loss = 1 / 2" unfolding ls by simp
  from p have p': "precision = 3 / 4" by (simp only: n tp of_nat_numeral)
  from v have v': "validate ?m ?l ?dl = Inr [''loss'' \<mapsto> 1 / 2, ''precision'' \<mapsto> 3 / 4]"
    unfolding l' p' .
  note c = validate_precision [of ?m ?l ?dl, THEN conjunct1, THEN spec, THEN mp, OF v']
  from c have d: "dom [''loss'' \<mapsto> 1 / 2 :: rat, ''precision'' \<mapsto> 3 / 4] = {''loss'', ''precision''}"
    by (elim conjE)
  from a v' d show ?thesis by (intro conjI)
qed

text \<open>
  Claim C10 as first stated lets \<open>validate\<close> return whenever some batch has a sample.
  With ten classes and the labels 1 and 12, a loss function that refuses a label outside
  the classes, as \<open>CrossEntropyLoss\<close> does, raises; so does a network that refuses its
  input. In both the exception leaves \<open>validate\<close>.
\<close>

theorem validate_counterexample:
  "all_labels [(0 :: nat, [1, 12])] = [1, 12] \<and>
   validate (\<lambda>x::nat. Inr \<lparr>n_rows = 2, n_classes = 10, entry = (\<lambda>i j. 0)\<rparr>)
            (\<lambda>t y. if list_all (\<lambda>c. 0 \<le> c \<and> c < int (n_classes t)) y then Inr (1 / 2) else Inl IndexError)
            [(0, [1, 12])] = Inl IndexError \<and>
   validate (\<lambda>x::nat. Inl RuntimeError) (\<lambda>t y. Inr (1 / 2)) [(0, [1, 12])] = Inl RuntimeError"
  by (simp add: all_labels_def validate_def)

end
